theory Spec2Isabelle
  imports Main "HOL-Library.Sublist"
begin

section \<open>Comment records and the comment tree builder (comments-service)\<close>

text \<open>
  A Go string that holds valid UTF-8 (every string that \<^verbatim>\<open>encoding/json\<close> decodes does)
  is modelled as the sequence of its code points; a timestamp is an integer (an instant on
  the time line, compared by \<open>\<le>\<close>).
\<close>

type_synonym rune = int

text \<open>
  The struct \<^verbatim>\<open>Comment\<close>. \<^verbatim>\<open>ParentID *int\<close> is an optional integer (nil is \<open>None\<close>) and
  \<^verbatim>\<open>Children []Comment\<close> a list of comment values. The first comments service declares the
  struct without the two moderation flags; its tree builder never reads them.
\<close>

datatype Comment =
  Comment (ID: int) (NewsID: int) (ParentID: "int option") (Text: "rune list")
    (CreatedAt: int) (IsModerated: bool) (IsApproved: bool) (Children: "Comment list")

text \<open>The assignment \<^verbatim>\<open>c.Children = ch\<close>.\<close>

fun set_Children :: "Comment \<Rightarrow> Comment list \<Rightarrow> Comment" where
  "set_Children (Comment i n p t c m a _) ch = Comment i n p t c m a ch"

text \<open>
  \<^verbatim>\<open>buildCommentTree\<close> (comments-service/main.go, lines 356 to 387) works on the array
  \<^verbatim>\<open>comments\<close> in place. \<^verbatim>\<open>commentMap\<close> maps an identifier to a pointer \<^verbatim>\<open>&comments[i]\<close>,
  modelled as the index \<open>i\<close>. An \<^verbatim>\<open>append(parent.Children, comments[i])\<close> stores a copy of the
  struct \<^verbatim>\<open>comments[i]\<close> as it is at that moment: the copy holds the slice header of
  \<^verbatim>\<open>comments[i].Children\<close> with its current length, so children that \<^verbatim>\<open>comments[i]\<close> receives
  later are not seen through the copy. A list value of HOL is exactly such a snapshot.
\<close>

text \<open>First loop, one iteration: reset the children, register the pointer.\<close>

definition initStep :: "nat \<Rightarrow> Comment list \<times> (int \<rightharpoonup> nat) \<Rightarrow> Comment list \<times> (int \<rightharpoonup> nat)" where
  "initStep i = (\<lambda>(comments, commentMap).
     (comments[i := set_Children (comments ! i) []], commentMap(ID (comments ! i) \<mapsto> i)))"

text \<open>Second loop, one iteration: append a copy of \<^verbatim>\<open>comments[i]\<close> to its parent's children.\<close>

definition linkStep :: "(int \<rightharpoonup> nat) \<Rightarrow> nat \<Rightarrow> Comment list \<Rightarrow> Comment list" where
  "linkStep commentMap i comments =
     (case ParentID (comments ! i) of
        None \<Rightarrow> comments
      | Some parentID \<Rightarrow>
          (case commentMap parentID of
             None \<Rightarrow> comments
           | Some j \<Rightarrow>
               comments[j := set_Children (comments ! j) (Children (comments ! j) @ [comments ! i])]))"

text \<open>
  The whole function: the array as the function leaves it, and the returned roots (the
  third loop keeps the elements without a parent, in array order).
\<close>

definition buildCommentTree_run :: "Comment list \<Rightarrow> Comment list \<times> Comment list" where
  "buildCommentTree_run comments =
     (if length comments = 0 then (comments, [])
      else
        let (cs1, commentMap) = fold initStep [0..<length comments] (comments, Map.empty);
            cs2 = fold (linkStep commentMap) [0..<length comments] cs1
        in (cs2, filter (\<lambda>c. ParentID c = None) cs2))"

definition buildCommentTree :: "Comment list \<Rightarrow> Comment list" where
  "buildCommentTree comments = snd (buildCommentTree_run comments)"

text \<open>
  The second \<^verbatim>\<open>buildCommentTree\<close> (lines 716 to 741, the service with moderation flags)
  collects the roots in the same loop that links the children.
\<close>

definition treeStep ::
  "(int \<rightharpoonup> nat) \<Rightarrow> nat \<Rightarrow> Comment list \<times> Comment list \<Rightarrow> Comment list \<times> Comment list" where
  "treeStep commentMap i = (\<lambda>(comments, roots).
     (case ParentID (comments ! i) of
        None \<Rightarrow> (comments, roots @ [comments ! i])
      | Some parentID \<Rightarrow>
          (case commentMap parentID of
             None \<Rightarrow> (comments, roots)
           | Some j \<Rightarrow>
               (comments[j := set_Children (comments ! j) (Children (comments ! j) @ [comments ! i])],
                roots))))"

definition buildCommentTree_moderated :: "Comment list \<Rightarrow> Comment list" where
  "buildCommentTree_moderated comments =
     (let (cs1, commentMap) = fold initStep [0..<length comments] (comments, Map.empty)
      in snd (fold (treeStep commentMap) [0..<length comments] (cs1, [])))"

text \<open>Every node of a tree, the root first; every node of a forest.\<close>

fun nodes :: "Comment \<Rightarrow> Comment list" where
  "nodes (Comment i n p t c m a ch) = Comment i n p t c m a ch # concat (map nodes ch)"

definition forest_nodes :: "Comment list \<Rightarrow> Comment list" where
  "forest_nodes f = concat (map nodes f)"

text \<open>The flat record of a comment: the comment without its children.\<close>

definition flat :: "Comment \<Rightarrow> Comment" where
  "flat c = set_Children c []"

text \<open>
  A tree in which every node's children, as flat records, form a subsequence of \<open>xs\<close>.
\<close>

fun ordered_in :: "Comment list \<Rightarrow> Comment \<Rightarrow> bool" where
  "ordered_in xs (Comment i n p t c m a ch) =
     (subseq (map flat ch) xs \<and> list_all (ordered_in xs) ch)"


text \<open>
  The map the first loop builds, as a function of the array: a later element with the same
  identifier overwrites an earlier one.
\<close>

definition idx_map :: "Comment list \<Rightarrow> nat \<Rightarrow> (int \<rightharpoonup> nat) \<Rightarrow> (int \<rightharpoonup> nat)" where
  "idx_map cs n m = fold (\<lambda>i m. m(ID (cs ! i) \<mapsto> i)) [0..<n] m"

text \<open>
  The loop invariant of the second loop after \<open>i\<close> iterations, for the flat input \<open>xs\<close>:
  no flat record has changed, every element's children are a subsequence of the first
  \<open>i\<close> input records, and every tree below an element is ordered.
\<close>

definition link_inv :: "Comment list \<Rightarrow> nat \<Rightarrow> Comment list \<Rightarrow> bool" where
  "link_inv xs i cs =
     (map flat cs = xs \<and>
      list_all (\<lambda>c. subseq (map flat (Children c)) (take i xs)) cs \<and>
      list_all (\<lambda>c. list_all (ordered_in xs) (Children c)) cs)"

text \<open>
  A thread of three comments, oldest first: a root, a reply to it, and a reply to the reply.
  A list of five: a root with two replies, an orphan between them (its parent 99 is not in
  the list) and a second root.
\<close>

definition thread3 :: "Comment list" where
  "thread3 =
     [Comment 1 1 None [] 10 False False [],
      Comment 2 1 (Some 1) [] 20 False False [],
      Comment 3 1 (Some 2) [] 30 False False []]"

definition thread5 :: "Comment list" where
  "thread5 =
     [Comment 1 1 None [] 10 False False [],
      Comment 2 1 (Some 1) [] 20 False False [],
      Comment 3 1 (Some 99) [] 30 False False [],
      Comment 4 1 (Some 1) [] 40 False False [],
      Comment 5 1 None [] 50 False False []]"

section \<open>Library functions the services call\<close>

text \<open>
  Byte strings (URLs, paths, query strings, request identifiers) are values of type
  \<open>string\<close>. The functions below follow the Go standard library functions of the same
  name, as far as the services use them.
\<close>

text \<open>\<^verbatim>\<open>strings.TrimPrefix\<close>.\<close>

definition TrimPrefix :: "string \<Rightarrow> string \<Rightarrow> string" where
  "TrimPrefix s p = (if prefix p s then drop (length p) s else s)"

text \<open>
  \<^verbatim>\<open>strconv.Atoi\<close> on a 64-bit platform: an optional sign, then at least one decimal digit
  and nothing else; a value outside the range of \<^verbatim>\<open>int\<close> is an error (\<open>None\<close>).
\<close>

definition isDigit :: "char \<Rightarrow> bool" where
  "isDigit c = (c \<in> set ''0123456789'')"

definition digitsValue :: "string \<Rightarrow> int" where
  "digitsValue ds = foldl (\<lambda>n c. 10 * n + (of_char c - 48)) 0 ds"

definition Atoi :: "string \<Rightarrow> int option" where
  "Atoi s =
     (let (neg, ds) =
            (case s of
               [] \<Rightarrow> (False, [])
             | c # rest \<Rightarrow>
                 if c = CHR ''-'' then (True, rest)
                 else if c = CHR ''+'' then (False, rest)
                 else (False, s))
      in if ds = [] \<or> \<not> list_all isDigit ds then None
         else
           let v = (if neg then - digitsValue ds else digitsValue ds)
           in if v < - (2 ^ 63) \<or> 2 ^ 63 \<le> v then None else Some v)"

text \<open>The verb \<^verbatim>\<open>%d\<close> of \<^verbatim>\<open>fmt.Sprintf\<close>: the decimal digits of an integer.\<close>

function natDigits :: "nat \<Rightarrow> string" where
  "natDigits n =
     (if n < 10 then [''0123456789'' ! n] else natDigits (n div 10) @ [''0123456789'' ! (n mod 10)])"
  by pat_completeness auto
termination
  by (relation "measure id") auto

declare natDigits.simps [simp del]

definition Itoa :: "int \<Rightarrow> string" where
  "Itoa i = (if i < 0 then CHR ''-'' # natDigits (nat (- i)) else natDigits (nat i))"

text \<open>
  \<^verbatim>\<open>strings.Cut\<close> with a one-byte separator: the text before and after the first
  occurrence of the separator, and whether it was found.
\<close>

definition Cut :: "string \<Rightarrow> char \<Rightarrow> string \<times> string \<times> bool" where
  "Cut s sep =
     (if sep \<in> set s
      then (takeWhile (\<lambda>c. c \<noteq> sep) s, drop 1 (dropWhile (\<lambda>c. c \<noteq> sep) s), True)
      else (s, [], False))"

text \<open>The pieces of a string between the occurrences of a separator byte.\<close>

fun splitOn :: "char \<Rightarrow> string \<Rightarrow> string list" where
  "splitOn sep [] = [[]]"
| "splitOn sep (c # s) =
     (if c = sep then [] # splitOn sep s
      else (case splitOn sep s of [] \<Rightarrow> [[c]] | p # ps \<Rightarrow> (c # p) # ps))"

text \<open>
  \<^verbatim>\<open>url.QueryUnescape\<close>: \<^verbatim>\<open>%XY\<close> becomes the byte with that hexadecimal value, \<^verbatim>\<open>+\<close> a
  space; a \<^verbatim>\<open>%\<close> that is not followed by two hexadecimal digits is an error.
\<close>

definition ishex :: "char \<Rightarrow> bool" where
  "ishex c = (c \<in> set ''0123456789abcdefABCDEF'')"

definition unhex :: "char \<Rightarrow> nat" where
  "unhex c =
     (if c \<in> set ''0123456789'' then of_char c - 48
      else if c \<in> set ''abcdef'' then of_char c - 97 + 10
      else if c \<in> set ''ABCDEF'' then of_char c - 65 + 10
      else 0)"

fun QueryUnescape :: "string \<Rightarrow> string option" where
  "QueryUnescape [] = Some []"
| "QueryUnescape (c # s) =
     (if c = CHR ''%'' then
        (case s of
           h1 # h2 # rest \<Rightarrow>
             if ishex h1 \<and> ishex h2
             then map_option (\<lambda>r. char_of (16 * unhex h1 + unhex h2) # r) (QueryUnescape rest)
             else None
         | _ \<Rightarrow> None)
      else if c = CHR ''+'' then map_option (\<lambda>r. CHR '' '' # r) (QueryUnescape s)
      else map_option (\<lambda>r. c # r) (QueryUnescape s))"

text \<open>
  \<^verbatim>\<open>url.QueryEscape\<close>: letters, digits and \<^verbatim>\<open>- _ . ~\<close> stand for themselves, a space
  becomes \<^verbatim>\<open>+\<close>, every other byte \<^verbatim>\<open>%XY\<close> in upper-case hexadecimal.
\<close>

definition unreserved :: "char \<Rightarrow> bool" where
  "unreserved c =
     (c \<in> set ''abcdefghijklmnopqrstuvwxyzABCDEFGHIJKLMNOPQRSTUVWXYZ0123456789-_.~'')"

definition escapeByte :: "char \<Rightarrow> string" where
  "escapeByte c =
     (if unreserved c then [c]
      else if c = CHR '' '' then ''+''
      else [CHR ''%'', ''0123456789ABCDEF'' ! (of_char c div 16),
            ''0123456789ABCDEF'' ! (of_char c mod 16)])"

definition QueryEscape :: "string \<Rightarrow> string" where
  "QueryEscape s = concat (map escapeByte s)"

text \<open>
  \<^verbatim>\<open>url.Values.Encode\<close> for parameters that are listed in the order of their keys
  (\<^verbatim>\<open>Encode\<close> sorts by key): \<^verbatim>\<open>key=value\<close> pairs, escaped, joined by \<^verbatim>\<open>&\<close>.
\<close>

fun Encode :: "(string \<times> string) list \<Rightarrow> string" where
  "Encode [] = []"
| "Encode [(k, v)] = QueryEscape k @ ''='' @ QueryEscape v"
| "Encode ((k, v) # kvs) = QueryEscape k @ ''='' @ QueryEscape v @ ''&'' @ Encode kvs"

text \<open>
  \<^verbatim>\<open>url.ParseQuery\<close> as \<^verbatim>\<open>URL.Query()\<close> uses it (its error is dropped, the pairs that
  parse are kept): the raw query is cut at every \<^verbatim>\<open>&\<close>; a piece that is empty, holds a
  semicolon or does not unescape is skipped; the others are cut at their first \<^verbatim>\<open>=\<close>.
\<close>

definition parsePiece :: "string \<Rightarrow> (string \<times> string) option" where
  "parsePiece piece =
     (if CHR '';'' \<in> set piece \<or> piece = [] then None
      else
        let (key, val, _) = Cut piece (CHR ''='') in
        (case QueryUnescape key of
           None \<Rightarrow> None
         | Some k \<Rightarrow> (case QueryUnescape val of None \<Rightarrow> None | Some v \<Rightarrow> Some (k, v))))"

definition parseQuery :: "string \<Rightarrow> (string \<times> string) list" where
  "parseQuery query = List.map_filter parsePiece (splitOn (CHR ''&'') query)"

text \<open>\<^verbatim>\<open>Values.Get\<close>: the first value of a key, the empty string when there is none.\<close>

definition QueryGet :: "string \<Rightarrow> string \<Rightarrow> string" where
  "QueryGet query key = (case map_of (parseQuery query) key of None \<Rightarrow> [] | Some v \<Rightarrow> v)"

text \<open>
  The raw query of a URL, as \<^verbatim>\<open>url.Parse\<close> reads it: what follows the first \<^verbatim>\<open>?\<close> of the
  part before the first \<^verbatim>\<open>#\<close>.
\<close>

definition URLRawQuery :: "string \<Rightarrow> string" where
  "URLRawQuery u =
     (let (nofragment, _, _) = Cut u (CHR ''#''); (_, query, _) = Cut nofragment (CHR ''?'')
      in query)"

text \<open>
  \<^verbatim>\<open>unicode.IsSpace\<close> and \<^verbatim>\<open>strings.TrimSpace\<close> on code points.
\<close>

definition isSpace :: "rune \<Rightarrow> bool" where
  "isSpace r =
     (r \<in> set [0x09, 0x0A, 0x0B, 0x0C, 0x0D, 0x20, 0x85, 0xA0, 0x1680, 0x2028, 0x2029, 0x202F,
               0x205F, 0x3000]
      \<or> (0x2000 \<le> r \<and> r \<le> 0x200A))"

definition TrimSpace :: "rune list \<Rightarrow> rune list" where
  "TrimSpace s = rev (dropWhile isSpace (rev (dropWhile isSpace s)))"

text \<open>
  \<^verbatim>\<open>strings.ToLower\<close> maps every code point through \<^verbatim>\<open>unicode.ToLower\<close>. The Unicode
  case table is not part of the repository: the mapping of one code point is the
  parameter \<open>lower\<close>.
\<close>

definition ToLower :: "(rune \<Rightarrow> rune) \<Rightarrow> rune list \<Rightarrow> rune list" where
  "ToLower lower s = map lower s"

text \<open>
  \<^verbatim>\<open>strings.Contains\<close>: the substring occurs at the start of the text or further on. (On
  valid UTF-8 an occurrence as bytes is an occurrence as code points.)
\<close>

fun Contains :: "'a list \<Rightarrow> 'a list \<Rightarrow> bool" where
  "Contains [] substr = (substr = [])"
| "Contains (c # s) substr = (prefix substr (c # s) \<or> Contains s substr)"

text \<open>The code points of an ASCII literal.\<close>

definition runes :: "string \<Rightarrow> rune list" where
  "runes s = map of_char s"

section \<open>The gateway (api-gateway)\<close>

abbreviation StatusOK :: int where "StatusOK \<equiv> 200"
abbreviation StatusCreated :: int where "StatusCreated \<equiv> 201"
abbreviation StatusBadRequest :: int where "StatusBadRequest \<equiv> 400"
abbreviation StatusNotFound :: int where "StatusNotFound \<equiv> 404"
abbreviation StatusMethodNotAllowed :: int where "StatusMethodNotAllowed \<equiv> 405"
abbreviation StatusInternalServerError :: int where "StatusInternalServerError \<equiv> 500"

subsection \<open>Data\<close>

record NewsShortDetailed =
  short_ID :: int
  short_Title :: "rune list"
  short_Description :: "rune list"
  short_PubDate :: int
  short_Link :: "rune list"

record Pagination =
  Page :: int
  TotalPages :: int
  PerPage :: int
  Total :: int

record NewsListResponse =
  News :: "NewsShortDetailed list"
  Pagination :: Pagination

record NewsFullDetailed =
  news_ID :: int
  news_Title :: "rune list"
  news_Content :: "rune list"
  news_Description :: "rune list"
  news_PubDate :: int
  news_Link :: "rune list"
  news_Comments :: "Comment list"

record CommentRequest =
  req_NewsID :: int
  req_ParentID :: "int option"
  req_Text :: "rune list"

text \<open>
  An inbound request as the handlers read it: the method, the path, the raw query and the
  result of decoding the body as a \<^verbatim>\<open>CommentRequest\<close> (\<open>None\<close> when
  \<^verbatim>\<open>json.Decode\<close> fails).
\<close>

record Request =
  Method :: string
  Path :: string
  RawQuery :: string
  JSONBody :: "CommentRequest option"

text \<open>
  What a call to a backend gives: \<^verbatim>\<open>http.NewRequest\<close> fails (\<open>RequestError\<close>, the URL
  does not parse), the transport fails (\<open>TransportError\<close>), or a response arrives with a
  status and a body; the body is given as the result of decoding it into the type the
  caller decodes into (\<open>None\<close> when that fails). \<^verbatim>\<open>http.Get\<close> reports the first two alike,
  as its error.
\<close>

datatype 'a Reply = RequestError | TransportError | Reply int "'a option"

text \<open>The backends: each function answers the call to a URL.\<close>

record Backend =
  GetNewsList :: "string \<Rightarrow> NewsListResponse Reply"
  GetNews :: "string \<Rightarrow> NewsFullDetailed Reply"
  GetComments :: "string \<Rightarrow> Comment list Reply"
  PostComment :: "string \<Rightarrow> CommentRequest \<Rightarrow> Comment Reply"

datatype Call = GET string | POST string CommentRequest

fun call_url :: "Call \<Rightarrow> string" where
  "call_url (GET u) = u"
| "call_url (POST u b) = u"

text \<open>
  What a handler does: the status and the body it writes, and the calls it hands to
  \<^verbatim>\<open>http.Get\<close> or \<^verbatim>\<open>http.NewRequest\<close>. The texts of \<^verbatim>\<open>http.Error\<close> that the source writes
  in Russian are given in English.
\<close>

datatype Body =
  ErrorText string
  | JSONNewsList NewsListResponse
  | JSONNews NewsFullDetailed
  | JSONComments "Comment list"
  | JSONComment Comment

record Outcome =
  status :: int
  body :: Body
  calls :: "Call list"

definition http_Error :: "string \<Rightarrow> int \<Rightarrow> Call list \<Rightarrow> Outcome" where
  "http_Error msg code cs = \<lparr>status = code, body = ErrorText msg, calls = cs\<rparr>"

definition respond :: "int \<Rightarrow> Body \<Rightarrow> Call list \<Rightarrow> Outcome" where
  "respond code b cs = \<lparr>status = code, body = b, calls = cs\<rparr>"

subsection \<open>The request identifier\<close>

text \<open>
  \<^verbatim>\<open>generateRequestID\<close>: eight characters, each \<^verbatim>\<open>chars[rand.Intn(len(chars))]\<close>. The
  random source is the parameter \<open>rnd\<close>; the \<open>i\<close>-th draw is \<open>rnd i\<close> reduced into the
  range of \<^verbatim>\<open>Intn\<close>.
\<close>

definition chars :: string where
  "chars = ''abcdefghijklmnopqrstuvwxyzABCDEFGHIJKLMNOPQRSTUVWXYZ0123456789''"

definition generateRequestID :: "(nat \<Rightarrow> nat) \<Rightarrow> string" where
  "generateRequestID rnd = map (\<lambda>i. chars ! (rnd i mod length chars)) [0..<8]"

text \<open>
  \<^verbatim>\<open>requestIDMiddleware\<close>: the identifier of the query, a generated one when that is
  empty, is put into the context of the request the next handler serves; here it is the
  handler's first argument.
\<close>

definition requestIDMiddleware ::
  "(nat \<Rightarrow> nat) \<Rightarrow> (string \<Rightarrow> Request \<Rightarrow> 'a) \<Rightarrow> Request \<Rightarrow> 'a" where
  "requestIDMiddleware rnd next r =
     (let requestID = QueryGet (RawQuery r) ''request_id'';
          requestID = (if requestID = [] then generateRequestID rnd else requestID)
      in next requestID r)"

text \<open>
  The identifier a backend reads from a call: its own \<^verbatim>\<open>requestIDMiddleware\<close> takes
  \<^verbatim>\<open>r.URL.Query().Get("request_id")\<close> of the URL it is called with.
\<close>

definition backend_request_id :: "Call \<Rightarrow> string" where
  "backend_request_id c = QueryGet (URLRawQuery (call_url c)) ''request_id''"

subsection \<open>\<^verbatim>\<open>getCommentsHandler\<close>\<close>

definition commentsURL :: "int \<Rightarrow> string \<Rightarrow> string" where
  "commentsURL newsID requestID =
     ''http://comments-service:8081/comments/'' @ Itoa newsID @ ''?request_id='' @ requestID"

definition getCommentsHandler :: "Backend \<Rightarrow> string \<Rightarrow> Request \<Rightarrow> Outcome" where
  "getCommentsHandler backend requestID r =
     (if Method r \<noteq> ''GET'' then http_Error ''Method not allowed'' StatusMethodNotAllowed []
      else if length (Path r) \<le> length ''/comments/''
      then http_Error ''News ID required'' StatusBadRequest []
      else
        (case Atoi (TrimPrefix (Path r) ''/comments/'') of
           None \<Rightarrow> http_Error ''Invalid news ID'' StatusBadRequest []
         | Some newsID \<Rightarrow>
             let url = commentsURL newsID requestID in
             (case GetComments backend url of
                Reply code decoded \<Rightarrow>
                  if code = StatusOK then
                    (case decoded of
                       None \<Rightarrow>
                         http_Error ''Could not decode the comments'' StatusInternalServerError
                           [GET url]
                     | Some comments \<Rightarrow> respond StatusOK (JSONComments comments) [GET url])
                  else http_Error ''Comments service error'' code [GET url]
              | _ \<Rightarrow>
                  http_Error ''Could not get the comments'' StatusInternalServerError [GET url])))"

subsection \<open>\<^verbatim>\<open>latestNewsHandler\<close> and \<^verbatim>\<open>filterNewsHandler\<close>\<close>

text \<open>
  A parameter of the inbound query is passed on when it is not empty; the request
  identifier is always added. The pairs stand in the order of their keys, in which
  \<^verbatim>\<open>params.Encode()\<close> writes them.
\<close>

definition passOn :: "Request \<Rightarrow> string \<Rightarrow> (string \<times> string) list" where
  "passOn r key = (let v = QueryGet (RawQuery r) key in if v \<noteq> [] then [(key, v)] else [])"

definition newsList :: "Backend \<Rightarrow> string \<Rightarrow> Outcome" where
  "newsList backend url =
     (case GetNewsList backend url of
        Reply code decoded \<Rightarrow>
          if code \<noteq> StatusOK then http_Error ''News service error'' code [GET url]
          else
            (case decoded of
               None \<Rightarrow>
                 http_Error ''Could not decode the news list'' StatusInternalServerError [GET url]
             | Some l \<Rightarrow> respond StatusOK (JSONNewsList l) [GET url])
      | _ \<Rightarrow> http_Error ''Could not get the news'' StatusInternalServerError [GET url])"

definition latestNewsHandler :: "Backend \<Rightarrow> string \<Rightarrow> Request \<Rightarrow> Outcome" where
  "latestNewsHandler backend requestID r =
     (if Method r \<noteq> ''GET'' then http_Error ''Method not allowed'' StatusMethodNotAllowed []
      else
        let params = passOn r ''page'' @ [(''request_id'', requestID)] @ passOn r ''s''
        in newsList backend (''http://news-service:8082/news/latest?'' @ Encode params))"

definition filterNewsHandler :: "Backend \<Rightarrow> string \<Rightarrow> Request \<Rightarrow> Outcome" where
  "filterNewsHandler backend requestID r =
     (if Method r \<noteq> ''GET'' then http_Error ''Method not allowed'' StatusMethodNotAllowed []
      else
        let params =
              passOn r ''date_from'' @ passOn r ''date_to'' @ passOn r ''page'' @ passOn r ''q''
              @ [(''request_id'', requestID)] @ passOn r ''s'' @ passOn r ''sort_by''
        in newsList backend (''http://news-service:8082/news/filter?'' @ Encode params))"

subsection \<open>\<^verbatim>\<open>newsDetailHandler\<close>\<close>

text \<open>
  \<^verbatim>\<open>RequestResult\<close>: \<^verbatim>\<open>Data interface{}\<close> holds nothing, a news item or a comment list;
  \<^verbatim>\<open>Err error\<close> is the error text or nil.
\<close>

datatype ResultData = NoData | NewsData NewsFullDetailed | CommentsData "Comment list"

record RequestResult =
  Data :: ResultData
  Err :: "string option"

definition newsURL :: "int \<Rightarrow> string \<Rightarrow> string" where
  "newsURL newsID requestID =
     ''http://news-service:8082/news/'' @ Itoa newsID @ ''?request_id='' @ requestID"

text \<open>The first goroutine: what it sends on the channel for the answer of the news service.\<close>

definition fetchNews :: "NewsFullDetailed Reply \<Rightarrow> RequestResult" where
  "fetchNews reply =
     (case reply of
        Reply code decoded \<Rightarrow>
          if code \<noteq> StatusOK then
            (if code = StatusNotFound
             then \<lparr>Data = NoData, Err = Some ''news not found''\<rparr>
             else \<lparr>Data = NoData, Err = Some (''news service error: '' @ Itoa code)\<rparr>)
          else
            (case decoded of
               None \<Rightarrow> \<lparr>Data = NoData, Err = Some ''error decoding the news''\<rparr>
             | Some news \<Rightarrow> \<lparr>Data = NewsData news, Err = None\<rparr>)
      | _ \<Rightarrow> \<lparr>Data = NoData, Err = Some ''error getting the news''\<rparr>)"

text \<open>The second goroutine: every failure of the comments call is sent as an empty list.\<close>

definition fetchComments :: "Comment list Reply \<Rightarrow> RequestResult" where
  "fetchComments reply =
     (case reply of
        Reply code decoded \<Rightarrow>
          if code = StatusOK then
            (case decoded of
               None \<Rightarrow> \<lparr>Data = CommentsData [], Err = None\<rparr>
             | Some comments \<Rightarrow> \<lparr>Data = CommentsData comments, Err = None\<rparr>)
          else \<lparr>Data = CommentsData [], Err = None\<rparr>
      | _ \<Rightarrow> \<lparr>Data = CommentsData [], Err = None\<rparr>)"

text \<open>
  The loop over the channel, for the results in the order they arrive: an error ends the
  loop (\<open>Inl\<close>: the text written with status 500), a datum is stored by its type.
\<close>

fun collectResults ::
  "RequestResult list \<Rightarrow> NewsFullDetailed \<times> Comment list
   \<Rightarrow> string + NewsFullDetailed \<times> Comment list" where
  "collectResults [] acc = Inr acc"
| "collectResults (result # rest) (news, comments) =
     (case Err result of
        Some e \<Rightarrow> Inl e
      | None \<Rightarrow>
          (case Data result of
             NewsData d \<Rightarrow> collectResults rest (d, comments)
           | CommentsData d \<Rightarrow> collectResults rest (news, d)
           | NoData \<Rightarrow> collectResults rest (news, comments)))"

definition zeroNews :: NewsFullDetailed where
  "zeroNews =
     \<lparr>news_ID = 0, news_Title = [], news_Content = [], news_Description = [],
      news_PubDate = 0, news_Link = [], news_Comments = []\<rparr>"

text \<open>
  The handler. Both goroutines always run, so both calls are made; which result reaches
  the channel first is the scheduler's choice, here the parameter \<open>newsFirst\<close>.
\<close>

definition newsDetailHandler :: "Backend \<Rightarrow> bool \<Rightarrow> string \<Rightarrow> Request \<Rightarrow> Outcome" where
  "newsDetailHandler backend newsFirst requestID r =
     (if Method r \<noteq> ''GET'' then http_Error ''Method not allowed'' StatusMethodNotAllowed []
      else if length (Path r) \<le> length ''/news/''
      then http_Error ''News ID required'' StatusBadRequest []
      else
        (case Atoi (TrimPrefix (Path r) ''/news/'') of
           None \<Rightarrow> http_Error ''Invalid news ID'' StatusBadRequest []
         | Some newsID \<Rightarrow>
             let nURL = newsURL newsID requestID;
                 cURL = commentsURL newsID requestID;
                 newsResult = fetchNews (GetNews backend nURL);
                 commentsResult = fetchComments (GetComments backend cURL);
                 results = (if newsFirst then [newsResult, commentsResult]
                            else [commentsResult, newsResult])
             in
             (case collectResults results (zeroNews, []) of
                Inl e \<Rightarrow> http_Error e StatusInternalServerError [GET nURL, GET cURL]
              | Inr (news, comments) \<Rightarrow>
                  respond StatusOK (JSONNews (news\<lparr>news_Comments := comments\<rparr>))
                    [GET nURL, GET cURL])))"

subsection \<open>\<^verbatim>\<open>commentsHandler\<close> and \<^verbatim>\<open>addCommentHandler\<close>\<close>

definition addCommentURL :: "string \<Rightarrow> string" where
  "addCommentURL requestID = ''http://comments-service:8081/comments?request_id='' @ requestID"

definition addCommentHandler :: "Backend \<Rightarrow> string \<Rightarrow> Request \<Rightarrow> Outcome" where
  "addCommentHandler backend requestID r =
     (case JSONBody r of
        None \<Rightarrow> http_Error ''Invalid JSON'' StatusBadRequest []
      | Some commentReq \<Rightarrow>
          if req_NewsID commentReq \<le> 0 then http_Error ''News ID required'' StatusBadRequest []
          else if req_Text commentReq = []
          then http_Error ''Comment text required'' StatusBadRequest []
          else
            let url = addCommentURL requestID in
            (case PostComment backend url commentReq of
               RequestError \<Rightarrow>
                 http_Error ''Could not create the request'' StatusInternalServerError
                   [POST url commentReq]
             | TransportError \<Rightarrow>
                 http_Error ''Could not add the comment'' StatusInternalServerError
                   [POST url commentReq]
             | Reply code decoded \<Rightarrow>
                 if code \<noteq> StatusCreated
                 then http_Error ''Comments service error'' code [POST url commentReq]
                 else
                   (case decoded of
                      None \<Rightarrow>
                        http_Error ''Could not decode the comment'' StatusInternalServerError
                          [POST url commentReq]
                    | Some newComment \<Rightarrow>
                        respond StatusCreated (JSONComment newComment) [POST url commentReq])))"

definition commentsHandler :: "Backend \<Rightarrow> string \<Rightarrow> Request \<Rightarrow> Outcome" where
  "commentsHandler backend requestID r =
     (if Method r = ''POST'' then addCommentHandler backend requestID r
      else http_Error ''Method not allowed'' StatusMethodNotAllowed [])"

text \<open>
  The validation of \<^verbatim>\<open>createCommentHandler\<close> in the comments service, which the gateway's
  handler repeats before its call: whether the service rejects the request with status 400
  before it looks at the parent or at the database.
\<close>

definition createComment_rejects :: "CommentRequest \<Rightarrow> bool" where
  "createComment_rejects commentReq =
     (req_NewsID commentReq \<le> 0 \<or> TrimSpace (req_Text commentReq) = [])"

section \<open>The censorship service\<close>

record CensorshipRequest =
  censor_Text :: "rune list"

record CensorshipResponse =
  IsApproved_of :: bool
  Message :: string

text \<open>The forbidden words; the second is the Cyrillic word, by its code points.\<close>

definition forbiddenWords :: "rune list list" where
  "forbiddenWords =
     [runes ''qwerty'', [0x439, 0x446, 0x443, 0x43A, 0x435, 0x43D], runes ''zxvbnm'']"

text \<open>\<^verbatim>\<open>checkText\<close>: the loop over the words returns at the first word the text contains.\<close>

fun checkWords :: "(rune \<Rightarrow> rune) \<Rightarrow> rune list \<Rightarrow> rune list list \<Rightarrow> bool" where
  "checkWords lower textLower [] = True"
| "checkWords lower textLower (word # rest) =
     (if Contains textLower (ToLower lower word) then False
      else checkWords lower textLower rest)"

definition checkText :: "(rune \<Rightarrow> rune) \<Rightarrow> rune list \<Rightarrow> bool" where
  "checkText lower text = (let textLower = ToLower lower text
                           in checkWords lower textLower forbiddenWords)"

datatype CensorBody = CensorError string | CensorJSON CensorshipResponse

text \<open>
  \<^verbatim>\<open>censorHandler\<close>, for the method of the request and the result of decoding its body.
\<close>

definition censorHandler ::
  "(rune \<Rightarrow> rune) \<Rightarrow> string \<Rightarrow> CensorshipRequest option \<Rightarrow> int \<times> CensorBody" where
  "censorHandler lower method decoded =
     (if method \<noteq> ''POST'' then (StatusMethodNotAllowed, CensorError ''Method not allowed'')
      else
        (case decoded of
           None \<Rightarrow> (StatusBadRequest, CensorError ''Invalid JSON'')
         | Some req \<Rightarrow>
             if TrimSpace (censor_Text req) = []
             then (StatusBadRequest, CensorError ''Text is required'')
             else if checkText lower (censor_Text req)
             then (StatusOK,
                   CensorJSON \<lparr>IsApproved_of = True, Message = ''Comment approved''\<rparr>)
             else (StatusBadRequest,
                   CensorJSON \<lparr>IsApproved_of = False,
                               Message = ''Comment contains inappropriate content''\<rparr>)))"

text \<open>
  A lower-case mapping for the witnesses: ASCII and the basic Cyrillic capitals, every
  other code point unchanged.
\<close>

definition asciiCyrillicLower :: "rune \<Rightarrow> rune" where
  "asciiCyrillicLower r =
     (if 0x41 \<le> r \<and> r \<le> 0x5A then r + 0x20
      else if 0x410 \<le> r \<and> r \<le> 0x42F then r + 0x20
      else r)"

section \<open>Auxiliary notions for the statements\<close>

text \<open>
  A call has failed when it gave no response, a response with a status other than 200, or
  a body that does not decode.
\<close>

definition callFailed :: "'a Reply \<Rightarrow> bool" where
  "callFailed reply =
     (case reply of Reply code decoded \<Rightarrow> code \<noteq> StatusOK \<or> decoded = None | _ \<Rightarrow> True)"

text \<open>
  Backends that give the same answer to every call, requests with a given path and query,
  and a sample news item, for concrete runs of the handlers.
\<close>

definition stubBackend ::
  "NewsFullDetailed Reply \<Rightarrow> Comment list Reply \<Rightarrow> Comment Reply \<Rightarrow> Backend" where
  "stubBackend n c p =
     \<lparr>GetNewsList = (\<lambda>url. TransportError), GetNews = (\<lambda>url. n), GetComments = (\<lambda>url. c),
      PostComment = (\<lambda>url b. p)\<rparr>"

definition getRequest :: "string \<Rightarrow> string \<Rightarrow> Request" where
  "getRequest path query = \<lparr>Method = ''GET'', Path = path, RawQuery = query, JSONBody = None\<rparr>"

definition postRequest :: "string \<Rightarrow> string \<Rightarrow> CommentRequest \<Rightarrow> Request" where
  "postRequest path query b =
     \<lparr>Method = ''POST'', Path = path, RawQuery = query, JSONBody = Some b\<rparr>"

definition sampleNews :: NewsFullDetailed where
  "sampleNews = zeroNews\<lparr>news_ID := 1, news_Title := runes ''title''\<rparr>"

section \<open>Properties of the tree builder\<close>


lemma ID_set_Children [simp]: "ID (set_Children c ch) = ID c"
  by (cases c) simp
lemma ParentID_set_Children [simp]: "ParentID (set_Children c ch) = ParentID c"
  by (cases c) simp
lemma CreatedAt_set_Children [simp]: "CreatedAt (set_Children c ch) = CreatedAt c"
  by (cases c) simp
lemma Children_set_Children [simp]: "Children (set_Children c ch) = ch"
  by (cases c) simp
lemma set_Children_twice [simp]: "set_Children (set_Children c ch) ch' = set_Children c ch'"
  by (cases c) simp

lemma flat_simps [simp]:
  "ID (flat c) = ID c" "ParentID (flat c) = ParentID c" "CreatedAt (flat c) = CreatedAt c"
  "Children (flat c) = []" "flat (set_Children c ch) = flat c" "flat (flat c) = flat c"
  by (simp_all add: flat_def)

lemma initStep_apply:
  "initStep i (cs, m) = (cs[i := flat (cs ! i)], m(ID (cs ! i) \<mapsto> i))"
  by (simp add: initStep_def flat_def)

lemma init_pass:
  "n \<le> length cs \<Longrightarrow>
   fold initStep [0..<n] (cs, m) = (map flat (take n cs) @ drop n cs, idx_map cs n m)"
proof (induction n)
  case 0
  then show ?case by (simp add: idx_map_def)
next
  case (Suc n)
  then have n: "n < length cs" by simp
  have nth: "(map flat (take n cs) @ drop n cs) ! n = cs ! n"
    using n by (simp add: nth_append)
  have upd: "(map flat (take n cs) @ drop n cs)[n := flat (cs ! n)]
             = map flat (take (Suc n) cs) @ drop (Suc n) cs"
    using n by (simp add: list_update_append take_Suc_conv_app_nth Cons_nth_drop_Suc [symmetric])
  have IH: "fold initStep [0..<n] (cs, m) = (map flat (take n cs) @ drop n cs, idx_map cs n m)"
    using Suc by simp
  show ?case
    by (simp add: IH initStep_apply nth upd) (simp add: idx_map_def)
qed

lemma idx_map_cong:
  "n \<le> length xs \<Longrightarrow> map flat xs = map flat ys \<Longrightarrow> idx_map xs n m = idx_map ys n m"
proof -
  assume n: "n \<le> length xs" and eq: "map flat xs = map flat ys"
  have len: "length xs = length ys" using eq by (metis length_map)
  have "ID (xs ! i) = ID (ys ! i)" if "i < n" for i
  proof -
    have "flat (xs ! i) = flat (ys ! i)"
      using that n len eq by (metis nth_map order_less_le_trans)
    then show ?thesis by (metis flat_simps(1))
  qed
  then show ?thesis
    unfolding idx_map_def by (intro fold_cong) auto
qed

lemma ordered_in_iff:
  "ordered_in xs c = (subseq (map flat (Children c)) xs \<and> list_all (ordered_in xs) (Children c))"
  by (cases c) simp

lemma link_inv_init: "link_inv (map flat cs) 0 (map flat cs)"
  by (simp add: link_inv_def list_all_iff comp_def)

lemma subseq_take_Suc: "subseq ys (take i xs) \<Longrightarrow> subseq ys (take (Suc i) xs)"
proof (cases "i < length xs")
  case True
  assume "subseq ys (take i xs)"
  then show ?thesis using True by (simp add: take_Suc_conv_app_nth subseq_rev_drop_many)
next
  case False
  assume "subseq ys (take i xs)"
  then show ?thesis using False by simp
qed

lemma subseq_take_full: "subseq ys (take i xs) \<Longrightarrow> subseq ys xs"
  by (metis append_take_drop_id subseq_rev_drop_many)

lemma link_inv_step:
  assumes inv: "link_inv xs i cs" and i: "i < length xs"
  shows "link_inv xs (Suc i) (linkStep m i cs)"
proof -
  from inv have fl: "map flat cs = xs"
    and sub: "list_all (\<lambda>c. subseq (map flat (Children c)) (take i xs)) cs"
    and deep: "list_all (\<lambda>c. list_all (ordered_in xs) (Children c)) cs"
    by (simp_all add: link_inv_def)
  have len: "length cs = length xs" using fl by (metis length_map)
  have sub': "list_all (\<lambda>c. subseq (map flat (Children c)) (take (Suc i) xs)) cs"
    using sub by (simp add: list_all_iff subseq_take_Suc)
  have keep: "link_inv xs (Suc i) cs"
    using fl sub' deep by (simp add: link_inv_def)
  show ?thesis
  proof (cases "ParentID (cs ! i)")
    case None
    then show ?thesis using keep by (simp add: linkStep_def)
  next
    case (Some pid)
    show ?thesis
    proof (cases "m pid")
      case None
      then show ?thesis using keep Some by (simp add: linkStep_def)
    next
      case (Some j)
      define child where "child = cs ! i"
      define parent where "parent = set_Children (cs ! j) (Children (cs ! j) @ [child])"
      have step: "linkStep m i cs = cs[j := parent]"
        using Some \<open>ParentID (cs ! i) = Some pid\<close>
        by (simp add: linkStep_def parent_def child_def)
      show ?thesis
      proof (cases "j < length cs")
        case False
        then show ?thesis using keep step by (simp add: list_update_beyond not_less)
      next
        case True
        have ci: "child \<in> set cs" using i len by (simp add: child_def)
        have cj: "cs ! j \<in> set cs" using True by simp
        have flat_child: "flat child = xs ! i"
          using fl i len by (metis child_def nth_map)
        have "subseq (map flat (Children child)) (take i xs)"
          using ci sub by (simp add: list_all_iff)
        then have c1: "subseq (map flat (Children child)) xs"
          by (rule subseq_take_full)
        have c2: "list_all (ordered_in xs) (Children child)"
          using ci deep by (simp add: list_all_iff)
        have child_ok: "ordered_in xs child"
          using c1 c2 by (simp add: ordered_in_iff)
        have p1: "flat parent = flat (cs ! j)" by (simp add: parent_def)
        have p2: "subseq (map flat (Children parent)) (take (Suc i) xs)"
        proof -
          have "subseq (map flat (Children (cs ! j))) (take i xs)"
            using cj sub by (simp add: list_all_iff)
          then have "subseq (map flat (Children (cs ! j)) @ [xs ! i]) (take i xs @ [xs ! i])"
            by (simp add: list_emb_append_mono)
          then show ?thesis
            using i by (simp add: parent_def flat_child take_Suc_conv_app_nth)
        qed
        have p3: "list_all (ordered_in xs) (Children parent)"
          using cj deep child_ok by (simp add: parent_def list_all_iff)
        have "map flat (cs[j := parent]) = (map flat cs)[j := (map flat cs) ! j]"
          using True p1 by (simp add: map_update)
        then have a: "map flat (cs[j := parent]) = xs"
          using fl by (simp only: list_update_id)
        have mem: "c = parent \<or> c \<in> set cs" if "c \<in> set (cs[j := parent])" for c
          using that set_update_subset_insert [of cs j parent] by blast
        have b: "list_all (\<lambda>c. subseq (map flat (Children c)) (take (Suc i) xs)) (cs[j := parent])"
          unfolding list_all_iff
        proof
          fix c assume "c \<in> set (cs[j := parent])"
          then have "c = parent \<or> c \<in> set cs" by (rule mem)
          then show "subseq (map flat (Children c)) (take (Suc i) xs)"
            using sub' p2 unfolding list_all_iff by blast
        qed
        have c: "list_all (\<lambda>c. list_all (ordered_in xs) (Children c)) (cs[j := parent])"
          unfolding list_all_iff
        proof
          fix c assume "c \<in> set (cs[j := parent])"
          then have "c = parent \<or> c \<in> set cs" by (rule mem)
          then show "\<forall>d\<in>set (Children c). ordered_in xs d"
            using deep p3 unfolding list_all_iff by blast
        qed
        show ?thesis using a b c step by (simp add: link_inv_def)
      qed
    qed
  qed
qed

lemma link_pass:
  "n \<le> length xs \<Longrightarrow> link_inv xs 0 cs \<Longrightarrow> link_inv xs n (fold (linkStep m) [0..<n] cs)"
proof (induction n)
  case 0
  then show ?case by simp
next
  case (Suc n)
  then have "link_inv xs n (fold (linkStep m) [0..<n] cs)" by simp
  then show ?case using Suc.prems by (simp add: link_inv_step)
qed

lemma buildCommentTree_run_eq:
  "buildCommentTree_run cs =
     (let cs2 = fold (linkStep (idx_map cs (length cs) Map.empty)) [0..<length cs] (map flat cs)
      in (cs2, filter (\<lambda>c. ParentID c = None) cs2))"
proof (cases "cs = []")
  case True
  then show ?thesis by (simp add: buildCommentTree_run_def)
next
  case False
  have "fold initStep [0..<length cs] (cs, Map.empty)
        = (map flat cs, idx_map cs (length cs) Map.empty)"
    using init_pass [of "length cs" cs Map.empty] by simp
  then show ?thesis using False by (simp add: buildCommentTree_run_def)
qed

lemma buildCommentTree_run_inv:
  "link_inv (map flat cs) (length cs) (fst (buildCommentTree_run cs))"
proof -
  have "link_inv (map flat cs) (length cs)
          (fold (linkStep (idx_map cs (length cs) Map.empty)) [0..<length cs] (map flat cs))"
    using link_pass [of "length cs" "map flat cs" "map flat cs"] link_inv_init by simp
  then show ?thesis by (simp add: buildCommentTree_run_eq Let_def)
qed

lemma buildCommentTree_filter:
  "buildCommentTree cs = filter (\<lambda>c. ParentID c = None) (fst (buildCommentTree_run cs))"
  by (simp add: buildCommentTree_def buildCommentTree_run_eq Let_def)

lemma ordered_in_nodes:
  "ordered_in xs r \<Longrightarrow> n \<in> set (nodes r) \<Longrightarrow> subseq (map flat (Children n)) xs"
proof (induction r rule: nodes.induct)
  case (1 i nid p t c m a ch)
  from "1.prems"(2) consider (root) "n = Comment i nid p t c m a ch"
    | (deeper) d where "d \<in> set ch" "n \<in> set (nodes d)"
    by auto
  then show ?case
  proof cases
    case root
    then show ?thesis using "1.prems"(1) by simp
  next
    case deeper
    then have "ordered_in xs d" using "1.prems"(1) by (simp add: list_all_iff)
    then show ?thesis using "1.IH" deeper by blast
  qed
qed

lemma buildCommentTree_roots_ordered:
  assumes "r \<in> set (buildCommentTree cs)"
  shows "ordered_in (map flat cs) r"
proof -
  let ?cs2 = "fst (buildCommentTree_run cs)"
  have r: "r \<in> set ?cs2" using assms by (simp add: buildCommentTree_filter)
  have inv: "link_inv (map flat cs) (length cs) ?cs2" by (rule buildCommentTree_run_inv)
  have "subseq (map flat (Children r)) (take (length cs) (map flat cs))"
    using inv r by (simp add: link_inv_def list_all_iff)
  then have a: "subseq (map flat (Children r)) (map flat cs)" by simp
  have b: "list_all (ordered_in (map flat cs)) (Children r)"
    using inv r by (simp add: link_inv_def list_all_iff)
  show ?thesis using a b by (simp add: ordered_in_iff)
qed

lemma forest_children_subseq:
  assumes "n \<in> set (forest_nodes (buildCommentTree cs))"
  shows "subseq (map flat (Children n)) (map flat cs)"
proof -
  from assms obtain r where "r \<in> set (buildCommentTree cs)" "n \<in> set (nodes r)"
    by (auto simp: forest_nodes_def)
  then show ?thesis
    using buildCommentTree_roots_ordered ordered_in_nodes by blast
qed

lemma roots_flat:
  "map flat (buildCommentTree cs) = filter (\<lambda>c. ParentID c = None) (map flat cs)"
proof -
  have "map flat (fst (buildCommentTree_run cs)) = map flat cs"
    using buildCommentTree_run_inv [of cs] by (simp add: link_inv_def)
  then have "filter (\<lambda>c. ParentID c = None) (map flat (fst (buildCommentTree_run cs)))
             = filter (\<lambda>c. ParentID c = None) (map flat cs)"
    by simp
  then show ?thesis
    by (simp add: buildCommentTree_filter filter_map comp_def)
qed

lemma sorted_wrt_subseq:
  "subseq xs ys \<Longrightarrow> sorted_wrt P ys \<Longrightarrow> sorted_wrt P xs"
proof (induction rule: list_emb.induct)
  case (list_emb_Nil ys)
  then show ?case by simp
next
  case (list_emb_Cons xs ys y)
  then show ?case by simp
next
  case (list_emb_Cons2 x y xs ys)
  have "\<And>z. z \<in> set xs \<Longrightarrow> z \<in> set ys"
    using list_emb_set [OF list_emb_Cons2.hyps(2)] by blast
  then show ?case using list_emb_Cons2 by auto
qed

lemma sorted_children:
  assumes "sorted_wrt (\<lambda>a b. CreatedAt a \<le> CreatedAt b) cs"
      and "n \<in> set (forest_nodes (buildCommentTree cs))"
  shows "sorted_wrt (\<lambda>a b. CreatedAt a \<le> CreatedAt b) (Children n)"
proof -
  have "sorted_wrt (\<lambda>a b. CreatedAt a \<le> CreatedAt b) (map flat cs)"
    using assms(1) by (simp add: sorted_wrt_map)
  then have "sorted_wrt (\<lambda>a b. CreatedAt a \<le> CreatedAt b) (map flat (Children n))"
    using forest_children_subseq [OF assms(2)] sorted_wrt_subseq by blast
  then show ?thesis by (simp add: sorted_wrt_map)
qed

lemma buildCommentTree_flat_cong:
  assumes "map flat xs = map flat ys"
  shows "buildCommentTree xs = buildCommentTree ys"
proof -
  have len: "length xs = length ys" using assms by (metis length_map)
  have "idx_map xs (length xs) Map.empty = idx_map ys (length xs) Map.empty"
    using assms by (intro idx_map_cong) simp_all
  then show ?thesis
    using assms len by (simp add: buildCommentTree_def buildCommentTree_run_eq Let_def)
qed

lemma rerun:
  "buildCommentTree (fst (buildCommentTree_run cs)) = buildCommentTree cs"
proof -
  have "map flat (fst (buildCommentTree_run cs)) = map flat cs"
    using buildCommentTree_run_inv [of cs] by (simp add: link_inv_def)
  then show ?thesis by (rule buildCommentTree_flat_cong)
qed


subsection \<open>The claims about the tree builder\<close>

lemmas tree_defs = buildCommentTree_def buildCommentTree_run_def buildCommentTree_moderated_def
  initStep_def linkStep_def treeStep_def forest_nodes_def upt_rec flat_def

text \<open>
  Claim C1 (every record whose parent is present appears in the forest, at any depth) fails
  on the code. On the three-comment thread the reply to the reply is lost: when comment 2
  was copied into the children of comment 1 it had no children yet, and the later append to
  \<^verbatim>\<open>comments[1].Children\<close> does not reach that copy. The second builder copies the root
  into \<^verbatim>\<open>roots\<close> before any reply is linked and loses comment 2 as well.
\<close>

theorem buildCommentTree_loses_grandchild:
  "buildCommentTree thread3 =
     [Comment 1 1 None [] 10 False False [Comment 2 1 (Some 1) [] 20 False False []]] \<and>
   map ID (forest_nodes (buildCommentTree thread3)) = [1, 2] \<and>
   map ID (forest_nodes (buildCommentTree_moderated thread3)) = [1]"
  by (simp add: thread3_def tree_defs)

text \<open>
  Claim C4: the builder preserves input order. The roots of the forest are, as flat records,
  the input records without a parent in input order; the children of every node of the
  forest, at any depth, are as flat records a subsequence of the input, that is they stand
  in their relative input order; and when the input is ordered by creation time (oldest
  first), so are the children of every node.
\<close>

theorem buildCommentTree_preserves_order:
  "map flat (buildCommentTree cs) = filter (\<lambda>c. ParentID c = None) (map flat cs) \<and>
   (\<forall>n \<in> set (forest_nodes (buildCommentTree cs)).
      subseq (map flat (Children n)) (map flat cs)) \<and>
   (sorted_wrt (\<lambda>a b. CreatedAt a \<le> CreatedAt b) cs \<longrightarrow>
      (\<forall>n \<in> set (forest_nodes (buildCommentTree cs)).
         sorted_wrt (\<lambda>a b. CreatedAt a \<le> CreatedAt b) (Children n)))"
  using roots_flat forest_children_subseq sorted_children by blast

lemma buildCommentTree_thread5: "buildCommentTree thread5 =
     [Comment 1 1 None [] 10 False False
        [Comment 2 1 (Some 1) [] 20 False False [], Comment 4 1 (Some 1) [] 40 False False []],
      Comment 5 1 None [] 50 False False []]"
  by (simp add: thread5_def tree_defs)

theorem buildCommentTree_preserves_order_witness:
  "sorted_wrt (\<lambda>a b. CreatedAt a \<le> CreatedAt b) thread5 \<and>
   map ID (buildCommentTree thread5) = [1, 5] \<and>
   map ID (Children (hd (buildCommentTree thread5))) = [2, 4] \<and>
   map flat (buildCommentTree thread5) = filter (\<lambda>c. ParentID c = None) (map flat thread5) \<and>
   subseq (map flat (Children (hd (buildCommentTree thread5)))) (map flat thread5) \<and>
   sorted_wrt (\<lambda>a b. CreatedAt a \<le> CreatedAt b) (Children (hd (buildCommentTree thread5)))"
proof -
  have s: "sorted_wrt (\<lambda>a b. CreatedAt a \<le> CreatedAt b) thread5"
    by (simp add: thread5_def)
  have m: "hd (buildCommentTree thread5) \<in> set (forest_nodes (buildCommentTree thread5))"
    by (simp add: buildCommentTree_thread5 forest_nodes_def)
  have i: "map ID (buildCommentTree thread5) = [1, 5]"
    "map ID (Children (hd (buildCommentTree thread5))) = [2, 4]"
    by (simp_all add: buildCommentTree_thread5)
  show ?thesis
    using buildCommentTree_preserves_order [of thread5] s m i by blast
qed

text \<open>
  Claim C5: the builder is deterministic and idempotent at the value level. The forest
  depends on the flat records of the input only (two inputs that agree on them give equal
  forests), and running the builder again on the array the first run has left behind (the
  same records, their children fields now filled) gives the same forest.
\<close>

theorem buildCommentTree_idempotent:
  "(map flat xs = map flat ys \<longrightarrow> buildCommentTree xs = buildCommentTree ys) \<and>
   buildCommentTree (fst (buildCommentTree_run cs)) = buildCommentTree cs"
  using buildCommentTree_flat_cong rerun by blast

theorem buildCommentTree_idempotent_witness:
  "map flat (fst (buildCommentTree_run thread3)) = map flat thread3 \<and>
   fst (buildCommentTree_run thread3) \<noteq> thread3 \<and>
   buildCommentTree (fst (buildCommentTree_run thread3)) = buildCommentTree thread3"
proof -
  have a: "map flat (fst (buildCommentTree_run thread3)) = map flat thread3"
    by (simp add: thread3_def tree_defs)
  have b: "fst (buildCommentTree_run thread3) \<noteq> thread3"
    by (simp add: thread3_def tree_defs)
  show ?thesis
    using buildCommentTree_idempotent [of "fst (buildCommentTree_run thread3)" thread3 thread3] a b
    by blast
qed



section \<open>Properties of the gateway handlers\<close>


lemma Atoi_Some_nonempty: "Atoi s = Some v \<Longrightarrow> s \<noteq> []"
  by (auto simp: Atoi_def)

lemma TrimPrefix_append [simp]: "TrimPrefix (p @ s) p = s"
  by (simp add: TrimPrefix_def)

lemma fetchComments_failed:
  "callFailed reply \<Longrightarrow> fetchComments reply = \<lparr>Data = CommentsData [], Err = None\<rparr>"
  by (auto simp: callFailed_def fetchComments_def split: Reply.splits option.splits)

lemma collect_ok:
  "collectResults [\<lparr>Data = NewsData n, Err = None\<rparr>, \<lparr>Data = CommentsData c, Err = None\<rparr>] acc
     = Inr (n, c)"
  "collectResults [\<lparr>Data = CommentsData c, Err = None\<rparr>, \<lparr>Data = NewsData n, Err = None\<rparr>] acc
     = Inr (n, c)"
  by (cases acc; simp)+

text \<open>
  Claim C3: in a detail request whose news call succeeds (status 200, a body that decodes),
  every failure of the comments call (no response, a status other than 200, a body that
  does not decode) is absorbed: whichever result arrives first, the gateway answers 200
  with the news item and an empty comment list.
\<close>

theorem newsDetail_absorbs_comments_failure:
  assumes "Method r = ''GET''"
      and "Path r = ''/news/'' @ idStr"
      and "Atoi idStr = Some newsID"
      and "GetNews backend (newsURL newsID requestID) = Reply StatusOK (Some news)"
      and "callFailed (GetComments backend (commentsURL newsID requestID))"
  shows "status (newsDetailHandler backend newsFirst requestID r) = StatusOK \<and>
         body (newsDetailHandler backend newsFirst requestID r)
           = JSONNews (news\<lparr>news_Comments := []\<rparr>)"
proof -
  have ne: "idStr \<noteq> []" using assms(3) by (rule Atoi_Some_nonempty)
  have n: "fetchNews (GetNews backend (newsURL newsID requestID))
           = \<lparr>Data = NewsData news, Err = None\<rparr>"
    using assms(4) by (simp add: fetchNews_def)
  have c: "fetchComments (GetComments backend (commentsURL newsID requestID))
           = \<lparr>Data = CommentsData [], Err = None\<rparr>"
    using assms(5) by (rule fetchComments_failed)
  have tp: "TrimPrefix (Path r) ''/news/'' = idStr"
    unfolding assms(2) by (rule TrimPrefix_append)
  have len: "\<not> length (Path r) \<le> length ''/news/''"
    unfolding assms(2) using ne by simp
  show ?thesis
    using len
    by (simp add: newsDetailHandler_def Let_def assms(1) assms(3) tp n c collect_ok respond_def)
qed


lemma Atoi_1: "Atoi ''1'' = Some 1"
  by code_simp

lemma Atoi_999999: "Atoi ''999999'' = Some 999999"
  by code_simp

theorem newsDetail_absorbs_comments_failure_witness:
  "callFailed (TransportError :: Comment list Reply) \<and>
   callFailed (Reply 503 (Some thread3)) \<and>
   callFailed (Reply StatusOK (None :: Comment list option)) \<and>
   status (newsDetailHandler (stubBackend (Reply StatusOK (Some sampleNews)) TransportError
             TransportError) True ''abc'' (getRequest ''/news/1'' [])) = StatusOK \<and>
   body (newsDetailHandler (stubBackend (Reply StatusOK (Some sampleNews)) (Reply 503 (Some thread3))
           TransportError) False ''abc'' (getRequest ''/news/1'' []))
     = JSONNews (sampleNews\<lparr>news_Comments := []\<rparr>) \<and>
   body (newsDetailHandler (stubBackend (Reply StatusOK (Some sampleNews)) (Reply StatusOK None)
           TransportError) True ''abc'' (getRequest ''/news/1'' []))
     = JSONNews (sampleNews\<lparr>news_Comments := []\<rparr>)"
proof -
  have f: "callFailed (TransportError :: Comment list Reply)"
    "callFailed (Reply 503 (Some thread3))"
    "callFailed (Reply StatusOK (None :: Comment list option))"
    by (simp_all add: callFailed_def)
  have m: "Method (getRequest ''/news/1'' []) = ''GET''"
    and p: "Path (getRequest ''/news/1'' []) = ''/news/'' @ ''1''"
    by (simp_all add: getRequest_def)
  have a: "status (newsDetailHandler (stubBackend (Reply StatusOK (Some sampleNews)) TransportError
             TransportError) True ''abc'' (getRequest ''/news/1'' [])) = StatusOK"
    using newsDetail_absorbs_comments_failure [OF m p Atoi_1, of
        "stubBackend (Reply StatusOK (Some sampleNews)) TransportError TransportError"
        "''abc''" sampleNews True] f(1)
    by (simp add: stubBackend_def)
  have b: "body (newsDetailHandler (stubBackend (Reply StatusOK (Some sampleNews))
             (Reply 503 (Some thread3)) TransportError) False ''abc'' (getRequest ''/news/1'' []))
           = JSONNews (sampleNews\<lparr>news_Comments := []\<rparr>)"
    using newsDetail_absorbs_comments_failure [OF m p Atoi_1, of
        "stubBackend (Reply StatusOK (Some sampleNews)) (Reply 503 (Some thread3)) TransportError"
        "''abc''" sampleNews False] f(2)
    by (simp add: stubBackend_def)
  have c: "body (newsDetailHandler (stubBackend (Reply StatusOK (Some sampleNews))
             (Reply StatusOK None) TransportError) True ''abc'' (getRequest ''/news/1'' []))
           = JSONNews (sampleNews\<lparr>news_Comments := []\<rparr>)"
    using newsDetail_absorbs_comments_failure [OF m p Atoi_1, of
        "stubBackend (Reply StatusOK (Some sampleNews)) (Reply StatusOK None) TransportError"
        "''abc''" sampleNews True] f(3)
    by (simp add: stubBackend_def)
  show ?thesis using f a b c by simp
qed

lemma newsDetail_valid:
  assumes "Method r = ''GET''" and "Path r = ''/news/'' @ idStr" and "Atoi idStr = Some newsID"
  shows "newsDetailHandler backend newsFirst requestID r =
     (let nURL = newsURL newsID requestID;
          cURL = commentsURL newsID requestID;
          newsResult = fetchNews (GetNews backend nURL);
          commentsResult = fetchComments (GetComments backend cURL);
          results = (if newsFirst then [newsResult, commentsResult]
                     else [commentsResult, newsResult])
      in
      (case collectResults results (zeroNews, []) of
         Inl e \<Rightarrow> http_Error e StatusInternalServerError [GET nURL, GET cURL]
       | Inr (news, comments) \<Rightarrow>
           respond StatusOK (JSONNews (news\<lparr>news_Comments := comments\<rparr>))
             [GET nURL, GET cURL]))"
proof -
  have ne: "idStr \<noteq> []" using assms(3) by (rule Atoi_Some_nonempty)
  have tp: "TrimPrefix (Path r) ''/news/'' = idStr"
    unfolding assms(2) by (rule TrimPrefix_append)
  have len: "\<not> length (Path r) \<le> length ''/news/''"
    unfolding assms(2) using ne by simp
  show ?thesis
    using len by (simp add: newsDetailHandler_def assms(1) assms(3) tp)
qed

lemma fetchComments_no_error: "Err (fetchComments reply) = None"
  by (simp add: fetchComments_def split: Reply.splits option.splits)

lemma newsDetail_not_found_500:
  assumes "Method r = ''GET''" and "Path r = ''/news/'' @ idStr" and "Atoi idStr = Some newsID"
      and "GetNews backend (newsURL newsID requestID) = Reply StatusNotFound decoded"
  shows "status (newsDetailHandler backend newsFirst requestID r) = StatusInternalServerError"
proof -
  have n: "fetchNews (GetNews backend (newsURL newsID requestID))
           = \<lparr>Data = NoData, Err = Some ''news not found''\<rparr>"
    using assms(4) by (simp add: fetchNews_def)
  obtain d where c: "fetchComments (GetComments backend (commentsURL newsID requestID))
           = \<lparr>Data = d, Err = None\<rparr>"
    using fetchComments_no_error
    by (metis (full_types) RequestResult.cases RequestResult.select_convs(2))
  show ?thesis
    by (cases d; cases newsFirst)
       (simp_all add: newsDetail_valid [OF assms(1,2,3)] Let_def n c http_Error_def)
qed

text \<open>
  Claim C2 (a 404 of the news service gives a 404 of the gateway) fails on the code: the
  first goroutine tells the 404 apart and sends the error "news not found", but the loop
  over the results writes every error with \<^verbatim>\<open>http.StatusInternalServerError\<close>. For
  \<^verbatim>\<open>GET /news/999999\<close> the gateway answers 500, whichever result arrives first.
\<close>

theorem newsDetail_not_found_gives_500:
  "status (newsDetailHandler (stubBackend (Reply StatusNotFound None) (Reply StatusOK (Some thread3))
             TransportError) True ''abc'' (getRequest ''/news/999999'' [])) = 500 \<and>
   status (newsDetailHandler (stubBackend (Reply StatusNotFound None) (Reply StatusOK (Some thread3))
             TransportError) False ''abc'' (getRequest ''/news/999999'' [])) = 500"
proof -
  have m: "Method (getRequest ''/news/999999'' []) = ''GET''"
    and p: "Path (getRequest ''/news/999999'' []) = ''/news/'' @ ''999999''"
    by (simp_all add: getRequest_def)
  have g: "GetNews (stubBackend (Reply StatusNotFound None) (Reply StatusOK (Some thread3))
             TransportError) (newsURL 999999 ''abc'') = Reply StatusNotFound None"
    by (simp add: stubBackend_def)
  show ?thesis
    using newsDetail_not_found_500 [OF m p Atoi_999999 g] by simp
qed


lemma getComments_valid:
  assumes "Method r = ''GET''" and "Path r = ''/comments/'' @ idStr"
      and "Atoi idStr = Some newsID"
  shows "getCommentsHandler backend requestID r =
     (let url = commentsURL newsID requestID in
      (case GetComments backend url of
         Reply code decoded \<Rightarrow>
           if code = StatusOK then
             (case decoded of
                None \<Rightarrow>
                  http_Error ''Could not decode the comments'' StatusInternalServerError [GET url]
              | Some comments \<Rightarrow> respond StatusOK (JSONComments comments) [GET url])
           else http_Error ''Comments service error'' code [GET url]
       | _ \<Rightarrow> http_Error ''Could not get the comments'' StatusInternalServerError [GET url]))"
proof -
  have ne: "idStr \<noteq> []" using assms(3) by (rule Atoi_Some_nonempty)
  have tp: "TrimPrefix (Path r) ''/comments/'' = idStr"
    unfolding assms(2) by (rule TrimPrefix_append)
  have len: "\<not> length (Path r) \<le> length ''/comments/''"
    unfolding assms(2) using ne by simp
  show ?thesis
    using len by (simp add: getCommentsHandler_def assms(1) assms(3) tp)
qed

lemma getComments_invalid:
  assumes "Method r = ''GET''" and "Path r = ''/comments/'' @ idStr" and "Atoi idStr = None"
  shows "status (getCommentsHandler backend requestID r) = StatusBadRequest \<and>
         calls (getCommentsHandler backend requestID r) = []"
proof -
  have tp: "TrimPrefix (Path r) ''/comments/'' = idStr"
    unfolding assms(2) by (rule TrimPrefix_append)
  show ?thesis
    by (simp add: getCommentsHandler_def assms(1) assms(3) tp http_Error_def)
qed

text \<open>
  Claim C8, amended: for \<^verbatim>\<open>GET /comments/{news_id}\<close>, a path suffix that is not an integer
  gives 400 and no backend call; otherwise one call is made, and a call without a response
  gives 500, a response with a status other than 200 gives that same status, a 200 whose
  body does not decode gives 500, and a 200 with a comment list gives 200 with that list.
\<close>

theorem getComments_statuses:
  fixes backend :: Backend and requestID :: string and r :: Request
  defines "out \<equiv> getCommentsHandler backend requestID r"
  assumes "Method r = ''GET''" and "Path r = ''/comments/'' @ idStr"
  shows "(Atoi idStr = None \<longrightarrow> status out = StatusBadRequest \<and> calls out = []) \<and>
         (\<forall>newsID reply. Atoi idStr = Some newsID \<and>
              reply = GetComments backend (commentsURL newsID requestID) \<longrightarrow>
            calls out = [GET (commentsURL newsID requestID)] \<and>
            (reply = RequestError \<or> reply = TransportError \<longrightarrow>
               status out = StatusInternalServerError) \<and>
            (\<forall>code decoded. reply = Reply code decoded \<and> code \<noteq> StatusOK \<longrightarrow>
               status out = code) \<and>
            (reply = Reply StatusOK None \<longrightarrow> status out = StatusInternalServerError) \<and>
            (\<forall>comments. reply = Reply StatusOK (Some comments) \<longrightarrow>
               status out = StatusOK \<and> body out = JSONComments comments))"
proof (intro conjI allI impI)
  assume "Atoi idStr = None"
  then show "status out = StatusBadRequest" "calls out = []"
    using getComments_invalid [OF assms(2,3)] by (simp_all add: out_def)
next
  fix newsID reply
  assume a: "Atoi idStr = Some newsID \<and> reply = GetComments backend (commentsURL newsID requestID)"
  then have v: "out = (let url = commentsURL newsID requestID in
      (case reply of
         Reply code decoded \<Rightarrow>
           if code = StatusOK then
             (case decoded of
                None \<Rightarrow>
                  http_Error ''Could not decode the comments'' StatusInternalServerError [GET url]
              | Some comments \<Rightarrow> respond StatusOK (JSONComments comments) [GET url])
           else http_Error ''Comments service error'' code [GET url]
       | _ \<Rightarrow> http_Error ''Could not get the comments'' StatusInternalServerError [GET url]))"
    using getComments_valid [OF assms(2,3), of newsID backend requestID] by (simp add: out_def)
  show "calls out = [GET (commentsURL newsID requestID)]"
    by (simp add: v Let_def http_Error_def respond_def split: Reply.splits option.splits)
  show "status out = StatusInternalServerError" if "reply = RequestError \<or> reply = TransportError"
    using that by (auto simp: v Let_def http_Error_def)
  show "status out = code" if "reply = Reply code decoded \<and> code \<noteq> StatusOK" for code decoded
    using that by (simp add: v Let_def http_Error_def)
  show "status out = StatusInternalServerError" if "reply = Reply StatusOK None"
    using that by (simp add: v Let_def http_Error_def)
  show "status out = StatusOK" "body out = JSONComments comments"
    if "reply = Reply StatusOK (Some comments)" for comments
    using that by (simp_all add: v Let_def respond_def)
qed

text \<open>
  Claim C8 as stated fails: a 503 of the comments service is answered with 503, not 500,
  and a 200 with a body that does not decode is not answered with 200.
\<close>

theorem getComments_relays_backend_status:
  "status (getCommentsHandler (stubBackend TransportError (Reply 503 None) TransportError) ''abc''
             (getRequest ''/comments/1'' [])) = 503 \<and>
   status (getCommentsHandler (stubBackend TransportError (Reply 503 None) TransportError) ''abc''
             (getRequest ''/comments/1'' [])) \<noteq> StatusInternalServerError \<and>
   status (getCommentsHandler (stubBackend TransportError (Reply StatusOK None) TransportError)
             ''abc'' (getRequest ''/comments/1'' [])) \<noteq> StatusOK"
proof -
  have m: "Method (getRequest ''/comments/1'' []) = ''GET''"
    and p: "Path (getRequest ''/comments/1'' []) = ''/comments/'' @ ''1''"
    by (simp_all add: getRequest_def)
  show ?thesis
    by (simp add: getComments_valid [OF m p Atoi_1] stubBackend_def http_Error_def)
qed

lemma Atoi_abc: "Atoi ''12a'' = None"
  by code_simp

theorem getComments_statuses_witness:
  "Atoi ''12a'' = None \<and>
   status (getCommentsHandler (stubBackend TransportError TransportError TransportError) ''abc''
             (getRequest ''/comments/12a'' [])) = StatusBadRequest \<and>
   calls (getCommentsHandler (stubBackend TransportError TransportError TransportError) ''abc''
             (getRequest ''/comments/12a'' [])) = [] \<and>
   Atoi ''1'' = Some 1 \<and>
   status (getCommentsHandler (stubBackend TransportError TransportError TransportError) ''abc''
             (getRequest ''/comments/1'' [])) = StatusInternalServerError \<and>
   status (getCommentsHandler (stubBackend TransportError (Reply StatusNotFound None) TransportError)
             ''abc'' (getRequest ''/comments/1'' [])) = StatusNotFound \<and>
   status (getCommentsHandler (stubBackend TransportError (Reply StatusOK None) TransportError)
             ''abc'' (getRequest ''/comments/1'' [])) = StatusInternalServerError \<and>
   body (getCommentsHandler (stubBackend TransportError (Reply StatusOK (Some thread3))
             TransportError) ''abc'' (getRequest ''/comments/1'' [])) = JSONComments thread3"
proof -
  have m: "Method (getRequest ''/comments/1'' []) = ''GET''"
    and p: "Path (getRequest ''/comments/1'' []) = ''/comments/'' @ ''1''"
    and m': "Method (getRequest ''/comments/12a'' []) = ''GET''"
    and p': "Path (getRequest ''/comments/12a'' []) = ''/comments/'' @ ''12a''"
    by (simp_all add: getRequest_def)
  have g: "GetComments (stubBackend n c q) u = c" for n c q u
    by (simp add: stubBackend_def)
  note bad = getComments_statuses [OF m' p', of
      "stubBackend TransportError TransportError TransportError" "''abc''"]
  note t = getComments_statuses [OF m p, of
      "stubBackend TransportError TransportError TransportError" "''abc''"]
  note nf = getComments_statuses [OF m p, of
      "stubBackend TransportError (Reply StatusNotFound None) TransportError" "''abc''"]
  note ud = getComments_statuses [OF m p, of
      "stubBackend TransportError (Reply StatusOK None) TransportError" "''abc''"]
  note ok = getComments_statuses [OF m p, of
      "stubBackend TransportError (Reply StatusOK (Some thread3)) TransportError" "''abc''"]
  show ?thesis
    using bad t nf ud ok Atoi_1 Atoi_abc by (simp add: g)
qed

lemma addComment_rejects_locally:
  assumes "JSONBody r = Some commentReq"
      and "req_NewsID commentReq \<le> 0 \<or> req_Text commentReq = []"
  shows "status (addCommentHandler backend requestID r) = StatusBadRequest \<and>
         calls (addCommentHandler backend requestID r) = []"
  using assms by (auto simp: addCommentHandler_def http_Error_def)

text \<open>
  Claim C7 (a text that is empty after trimming is rejected without a backend call) fails
  on the code: the gateway compares the text with the empty string and does not trim it. A
  text of two spaces, which \<^verbatim>\<open>createCommentHandler\<close> of the comments service rejects,
  is posted to that service; when the service cannot be reached the gateway answers 500.
\<close>

theorem addComment_blank_text_reaches_backend:
  "createComment_rejects \<lparr>req_NewsID = 1, req_ParentID = None, req_Text = runes ''  ''\<rparr> \<and>
   calls (commentsHandler (stubBackend TransportError TransportError (Reply StatusBadRequest None))
            ''abc''
            (postRequest ''/comments'' []
               \<lparr>req_NewsID = 1, req_ParentID = None, req_Text = runes ''  ''\<rparr>))
     = [POST (addCommentURL ''abc'')
          \<lparr>req_NewsID = 1, req_ParentID = None, req_Text = runes ''  ''\<rparr>] \<and>
   status (commentsHandler (stubBackend TransportError TransportError TransportError) ''abc''
            (postRequest ''/comments'' []
               \<lparr>req_NewsID = 1, req_ParentID = None, req_Text = runes ''  ''\<rparr>))
     = StatusInternalServerError"
  by (simp add: createComment_rejects_def TrimSpace_def isSpace_def runes_def commentsHandler_def
        addCommentHandler_def postRequest_def stubBackend_def http_Error_def)


subsection \<open>The request identifier\<close>

lemma newsDetail_calls:
  assumes "Method r = ''GET''" and "Path r = ''/news/'' @ idStr" and "Atoi idStr = Some newsID"
  shows "calls (newsDetailHandler backend newsFirst requestID r)
           = [GET (newsURL newsID requestID), GET (commentsURL newsID requestID)]"
  by (simp add: newsDetail_valid [OF assms] Let_def http_Error_def respond_def
        split: sum.splits prod.splits)

lemma requestIDMiddleware_eq:
  "requestIDMiddleware rnd next r =
     next (if QueryGet (RawQuery r) ''request_id'' = [] then generateRequestID rnd
           else QueryGet (RawQuery r) ''request_id'') r"
  by (simp add: requestIDMiddleware_def Let_def)

lemma generateRequestID_length: "length (generateRequestID rnd) = 8"
  by (simp add: generateRequestID_def)

lemma latestNews_calls:
  "Method r = ''GET'' \<Longrightarrow>
   calls (latestNewsHandler backend requestID r)
     = [GET (''http://news-service:8082/news/latest?'' @
             Encode (passOn r ''page'' @ [(''request_id'', requestID)] @ passOn r ''s''))]"
  by (simp add: latestNewsHandler_def newsList_def Let_def http_Error_def respond_def
        split: Reply.splits option.splits)

lemma token_amp: "QueryGet ''request_id=a%26b'' ''request_id'' = ''a&b''"
  by code_simp

lemma url1: "newsURL 1 ''a&b'' = ''http://news-service:8082/news/1?request_id=a&b''"
  by code_simp
lemma url2: "commentsURL 1 ''a&b'' = ''http://comments-service:8081/comments/1?request_id=a&b''"
  by code_simp
lemma rid1: "backend_request_id (GET ''http://news-service:8082/news/1?request_id=a&b'') = ''a''"
  by code_simp
lemma rid2: "backend_request_id (GET ''http://comments-service:8081/comments/1?request_id=a&b'') = ''a''"
  by code_simp
lemma url3: "Encode (passOn (getRequest ''/news/latest'' ''request_id=a%26b'') ''page''
                     @ (''request_id'', ''a&b'')
                     # passOn (getRequest ''/news/latest'' ''request_id=a%26b'') ''s'')
             = ''request_id=a%26b''"
  by code_simp
lemma rid3: "backend_request_id (GET ''http://news-service:8082/news/latest?request_id=a%26b'') = ''a&b''"
  by code_simp

lemma natDigits_chars: "set (natDigits n) \<subseteq> set ''0123456789''"
proof (induction n rule: natDigits.induct)
  case (1 n)
  have d: "''0123456789'' ! k \<in> set ''0123456789''" if "k < 10" for k
    using that by (intro nth_mem) simp
  show ?case
  proof (cases "n < 10")
    case True
    then show ?thesis using d [of n] by (subst natDigits.simps) simp
  next
    case False
    have "n mod 10 < 10" by simp
    then have "''0123456789'' ! (n mod 10) \<in> set ''0123456789''" by (rule d)
    then show ?thesis using 1 False by (subst natDigits.simps) simp
  qed
qed

lemma Itoa_member:
  assumes "c \<in> set (Itoa i)"
  shows "c = CHR ''-'' \<or> c \<in> set ''0123456789''"
proof (cases "i < 0")
  case True
  then have "c = CHR ''-'' \<or> c \<in> set (natDigits (nat (- i)))"
    using assms by (simp add: Itoa_def)
  then show ?thesis using natDigits_chars [of "nat (- i)"] by blast
next
  case False
  then have "c \<in> set (natDigits (nat i))"
    using assms by (simp add: Itoa_def)
  then show ?thesis using natDigits_chars [of "nat i"] by blast
qed

lemma Itoa_plain: "CHR ''#'' \<notin> set (Itoa i)" "CHR ''?'' \<notin> set (Itoa i)"
  using Itoa_member [of "CHR ''#''" i] Itoa_member [of "CHR ''?''" i] by auto

lemma unreserved_plain:
  assumes "unreserved c"
  shows "c \<noteq> CHR ''#''" "c \<noteq> CHR ''?''" "c \<noteq> CHR ''&''" "c \<noteq> CHR '';''"
        "c \<noteq> CHR ''=''" "c \<noteq> CHR ''%''" "c \<noteq> CHR ''+''"
  using assms by (auto simp: unreserved_def)

lemma splitOn_absent: "sep \<notin> set s \<Longrightarrow> splitOn sep s = [s]"
  by (induction s) auto

lemma QueryUnescape_plain:
  "CHR ''%'' \<notin> set s \<Longrightarrow> CHR ''+'' \<notin> set s \<Longrightarrow> QueryUnescape s = Some s"
  by (induction s) auto

lemma Cut_absent: "sep \<notin> set s \<Longrightarrow> Cut s sep = (s, [], False)"
  by (simp add: Cut_def)

lemma Cut_first:
  assumes "sep \<notin> set a"
  shows "Cut (a @ sep # b) sep = (a, b, True)"
proof -
  have n: "\<And>c. c \<in> set a \<Longrightarrow> c \<noteq> sep" using assms by blast
  have t: "takeWhile (\<lambda>c. c \<noteq> sep) (a @ sep # b) = a"
    using n by (simp add: takeWhile_append2)
  have d: "dropWhile (\<lambda>c. c \<noteq> sep) (a @ sep # b) = sep # b"
    using n by (simp add: dropWhile_append2)
  show ?thesis by (simp add: Cut_def t d)
qed

lemma plain_token_read_back:
  assumes b1: "CHR ''#'' \<notin> set base" and b2: "CHR ''?'' \<notin> set base"
      and tok: "list_all unreserved tok"
  shows "QueryGet (URLRawQuery (base @ ''?request_id='' @ tok)) ''request_id'' = tok"
proof -
  define q where "q = ''request_id='' @ tok"
  have t: "c \<in> set tok \<Longrightarrow> unreserved c" for c
    using tok by (simp add: list_all_iff)
  have nt: "CHR ''#'' \<notin> set tok" "CHR ''&'' \<notin> set tok" "CHR '';'' \<notin> set tok"
    "CHR ''%'' \<notin> set tok" "CHR ''+'' \<notin> set tok"
    using t unreserved_plain by blast+
  have url: "base @ ''?request_id='' @ tok = base @ CHR ''?'' # q"
    by (simp add: q_def)
  have nofrag: "CHR ''#'' \<notin> set (base @ CHR ''?'' # q)"
    using b1 nt(1) by (simp add: q_def)
  have raw: "URLRawQuery (base @ CHR ''?'' # q) = q"
    by (simp add: URLRawQuery_def Cut_absent [OF nofrag] Cut_first [OF b2])
  have amp: "CHR ''&'' \<notin> set q" using nt(2) by (simp add: q_def)
  have semi: "CHR '';'' \<notin> set q" using nt(3) by (simp add: q_def)
  have cut: "Cut q (CHR ''='') = (''request_id'', tok, True)"
    using Cut_first [of "CHR ''=''" "''request_id''" tok] by (simp add: q_def)
  have key: "QueryUnescape ''request_id'' = Some ''request_id''"
    by (rule QueryUnescape_plain) simp_all
  have val: "QueryUnescape tok = Some tok"
    using nt(4,5) by (rule QueryUnescape_plain)
  have ne: "q \<noteq> []" by (simp add: q_def)
  have piece: "parsePiece q = Some (''request_id'', tok)"
    using semi ne by (simp add: parsePiece_def cut key val)
  have "parseQuery q = [(''request_id'', tok)]"
    by (simp add: parseQuery_def splitOn_absent [OF amp] List.map_filter_def piece)
  then have "QueryGet q ''request_id'' = tok"
    by (simp add: QueryGet_def)
  then show ?thesis
    by (simp only: url raw)
qed

lemma newsURL_read_back:
  assumes "list_all unreserved tok"
  shows "backend_request_id (GET (newsURL n tok)) = tok"
proof -
  have "CHR ''#'' \<notin> set (''http://news-service:8082/news/'' @ Itoa n)"
    "CHR ''?'' \<notin> set (''http://news-service:8082/news/'' @ Itoa n)"
    using Itoa_plain [of n] by simp_all
  then have "QueryGet (URLRawQuery ((''http://news-service:8082/news/'' @ Itoa n)
                @ ''?request_id='' @ tok)) ''request_id'' = tok"
    using assms by (rule plain_token_read_back)
  then show ?thesis
    by (simp add: backend_request_id_def newsURL_def)
qed

lemma commentsURL_read_back:
  assumes "list_all unreserved tok"
  shows "backend_request_id (GET (commentsURL n tok)) = tok"
proof -
  have "CHR ''#'' \<notin> set (''http://comments-service:8081/comments/'' @ Itoa n)"
    "CHR ''?'' \<notin> set (''http://comments-service:8081/comments/'' @ Itoa n)"
    using Itoa_plain [of n] by simp_all
  then have "QueryGet (URLRawQuery ((''http://comments-service:8081/comments/'' @ Itoa n)
                @ ''?request_id='' @ tok)) ''request_id'' = tok"
    using assms by (rule plain_token_read_back)
  then show ?thesis
    by (simp add: backend_request_id_def commentsURL_def)
qed

lemma chars_unreserved: "list_all unreserved chars"
  by code_simp

lemma generateRequestID_unreserved: "list_all unreserved (generateRequestID rnd)"
proof -
  have "chars ! (k mod length chars) \<in> set chars" for k
    by (intro nth_mem) (simp add: chars_def)
  then show ?thesis
    using chars_unreserved by (auto simp: generateRequestID_def list_all_iff)
qed


text \<open>
  What holds of the detail handler: when the token of the inbound request is made of
  letters, digits and \<^verbatim>\<open>- _ . ~\<close> only, or is absent (then the generated token is used,
  which is not empty), both backends read exactly that token from their call.
\<close>

lemma newsDetail_forwards_plain_request_id:
  assumes "Method r = ''GET''" and "Path r = ''/news/'' @ idStr" and "Atoi idStr = Some newsID"
      and "list_all unreserved (QueryGet (RawQuery r) ''request_id'')"
      and "token = (if QueryGet (RawQuery r) ''request_id'' = [] then generateRequestID rnd
                    else QueryGet (RawQuery r) ''request_id'')"
  shows "token \<noteq> [] \<and>
         map backend_request_id
           (calls (requestIDMiddleware rnd (newsDetailHandler backend newsFirst) r))
         = [token, token]"
proof -
  have ne: "generateRequestID rnd \<noteq> []"
    using generateRequestID_length [of rnd] by auto
  have plain: "list_all unreserved token"
    using assms(4,5) generateRequestID_unreserved by simp
  have "calls (requestIDMiddleware rnd (newsDetailHandler backend newsFirst) r)
        = [GET (newsURL newsID token), GET (commentsURL newsID token)]"
    by (simp only: requestIDMiddleware_eq newsDetail_calls [OF assms(1,2,3)] assms(5))
  then show ?thesis
    using ne assms(5) newsURL_read_back [OF plain] commentsURL_read_back [OF plain]
    by simp
qed

text \<open>
  Claim C6 (the exact token of the inbound request is attached to every outbound call)
  fails on the code. The detail handler writes the token into its two URLs with
  \<^verbatim>\<open>fmt.Sprintf\<close> and does not escape it. For \<^verbatim>\<open>GET /news/1?request_id=a%26b\<close> the token
  is \<^verbatim>\<open>a&b\<close>; both URLs end in \<^verbatim>\<open>?request_id=a&b\<close>, and the identifier a backend reads
  from them is \<^verbatim>\<open>a\<close>. The list handler builds its query with \<^verbatim>\<open>url.Values\<close> and forwards
  the same token unchanged.
\<close>

theorem newsDetail_forwards_truncated_request_id:
  "QueryGet (RawQuery (getRequest ''/news/1'' ''request_id=a%26b'')) ''request_id'' = ''a&b'' \<and>
   calls (requestIDMiddleware rnd (newsDetailHandler backend newsFirst)
            (getRequest ''/news/1'' ''request_id=a%26b''))
     = [GET ''http://news-service:8082/news/1?request_id=a&b'',
        GET ''http://comments-service:8081/comments/1?request_id=a&b''] \<and>
   map backend_request_id
     (calls (requestIDMiddleware rnd (newsDetailHandler backend newsFirst)
               (getRequest ''/news/1'' ''request_id=a%26b''))) = [''a'', ''a''] \<and>
   map backend_request_id
     (calls (requestIDMiddleware rnd (latestNewsHandler backend)
               (getRequest ''/news/latest'' ''request_id=a%26b''))) = [''a&b'']"
proof -
  have m: "Method (getRequest ''/news/1'' ''request_id=a%26b'') = ''GET''"
    and p: "Path (getRequest ''/news/1'' ''request_id=a%26b'') = ''/news/'' @ ''1''"
    and q: "RawQuery (getRequest ''/news/1'' ''request_id=a%26b'') = ''request_id=a%26b''"
    and m': "Method (getRequest ''/news/latest'' ''request_id=a%26b'') = ''GET''"
    and q': "RawQuery (getRequest ''/news/latest'' ''request_id=a%26b'') = ''request_id=a%26b''"
    by (simp_all add: getRequest_def)
  have c: "calls (requestIDMiddleware rnd (newsDetailHandler backend newsFirst)
            (getRequest ''/news/1'' ''request_id=a%26b''))
     = [GET ''http://news-service:8082/news/1?request_id=a&b'',
        GET ''http://comments-service:8081/comments/1?request_id=a&b'']"
    by (simp only: requestIDMiddleware_eq q token_amp newsDetail_calls [OF m p Atoi_1])
       (simp add: url1 url2)
  have l: "calls (requestIDMiddleware rnd (latestNewsHandler backend)
               (getRequest ''/news/latest'' ''request_id=a%26b''))
           = [GET ''http://news-service:8082/news/latest?request_id=a%26b'']"
    by (simp only: requestIDMiddleware_eq q' token_amp latestNews_calls [OF m'])
       (simp add: url3)
  show ?thesis
    by (simp only: c l q token_amp) (simp add: rid1 rid2 rid3)
qed

section \<open>Properties of the censorship service\<close>

lemma Contains_sublist: "Contains s sub = sublist sub s"
  by (induction s) (simp_all add: sublist_Cons_right)

lemma checkWords_iff:
  "checkWords lower textLower ws = (\<forall>w \<in> set ws. \<not> sublist (ToLower lower w) textLower)"
  by (induction ws) (simp_all add: Contains_sublist)

lemma ToLower_fixed: "\<forall>c \<in> set w. lower c = c \<Longrightarrow> ToLower lower w = w"
  by (simp add: ToLower_def map_idI)

lemma checkText_iff:
  assumes "\<forall>c \<in> set (concat forbiddenWords). lower c = c"
  shows "checkText lower text =
           (\<not> (sublist (runes ''qwerty'') (ToLower lower text) \<or>
               sublist [0x439, 0x446, 0x443, 0x43A, 0x435, 0x43D] (ToLower lower text) \<or>
               sublist (runes ''zxvbnm'') (ToLower lower text)))"
proof -
  have "ToLower lower w = w" if "w \<in> set forbiddenWords" for w
    using assms that by (intro ToLower_fixed) auto
  then have "checkText lower text = (\<forall>w \<in> set forbiddenWords. \<not> sublist w (ToLower lower text))"
    by (simp add: checkText_def checkWords_iff)
  then show ?thesis by (simp add: forbiddenWords_def)
qed

text \<open>
  Claim C10: for a \<^verbatim>\<open>POST /censor\<close> request whose body decodes and whose text is not
  blank after trimming, the service answers 200 with \<^verbatim>\<open>is_approved = true\<close> exactly when
  the lower-cased text contains none of the three forbidden words, and 400 with
  \<^verbatim>\<open>is_approved = false\<close> otherwise. The case mapping of a code point is a parameter; what is
  used of it is that it leaves the letters of the three (lower-case) words unchanged, as
  \<^verbatim>\<open>unicode.ToLower\<close> does.
\<close>

theorem censorHandler_approves_iff_no_forbidden_word:
  assumes "\<forall>c \<in> set (concat forbiddenWords). lower c = c"
      and "TrimSpace (censor_Text req) \<noteq> []"
  shows "censorHandler lower ''POST'' (Some req) =
           (if sublist (runes ''qwerty'') (ToLower lower (censor_Text req)) \<or>
               sublist [0x439, 0x446, 0x443, 0x43A, 0x435, 0x43D] (ToLower lower (censor_Text req)) \<or>
               sublist (runes ''zxvbnm'') (ToLower lower (censor_Text req))
            then (StatusBadRequest,
                  CensorJSON \<lparr>IsApproved_of = False,
                              Message = ''Comment contains inappropriate content''\<rparr>)
            else (StatusOK, CensorJSON \<lparr>IsApproved_of = True, Message = ''Comment approved''\<rparr>))"
  using assms(2) by (simp add: censorHandler_def checkText_iff [OF assms(1)])

theorem censorHandler_approves_iff_no_forbidden_word_witness:
  "list_all (\<lambda>c. asciiCyrillicLower c = c) (concat forbiddenWords) \<and>
   TrimSpace (runes ''my QwErTy'') \<noteq> [] \<and>
   TrimSpace (runes '' fine '') \<noteq> [] \<and>
   censorHandler asciiCyrillicLower ''POST'' (Some \<lparr>censor_Text = runes ''my QwErTy''\<rparr>)
     = (StatusBadRequest,
        CensorJSON \<lparr>IsApproved_of = False, Message = ''Comment contains inappropriate content''\<rparr>) \<and>
   censorHandler asciiCyrillicLower ''POST'' (Some \<lparr>censor_Text = [0x419, 0x426, 0x423, 0x41A, 0x415, 0x41D]\<rparr>)
     = (StatusBadRequest,
        CensorJSON \<lparr>IsApproved_of = False, Message = ''Comment contains inappropriate content''\<rparr>) \<and>
   censorHandler asciiCyrillicLower ''POST'' (Some \<lparr>censor_Text = runes '' fine ''\<rparr>)
     = (StatusOK, CensorJSON \<lparr>IsApproved_of = True, Message = ''Comment approved''\<rparr>)"
proof -
  have l: "list_all (\<lambda>c. asciiCyrillicLower c = c) (concat forbiddenWords)"
    by code_simp
  then have h: "\<forall>c \<in> set (concat forbiddenWords). asciiCyrillicLower c = c"
    by (simp add: list_all_iff)
  have t1: "TrimSpace (runes ''my QwErTy'') \<noteq> []" by code_simp
  have t2: "TrimSpace [0x419, 0x426, 0x423, 0x41A, 0x415, 0x41D] \<noteq> []" by code_simp
  have t3: "TrimSpace (runes '' fine '') \<noteq> []" by code_simp
  have s1: "sublist (runes ''qwerty'') (ToLower asciiCyrillicLower (runes ''my QwErTy''))"
    by code_simp
  have s2: "sublist [0x439, 0x446, 0x443, 0x43A, 0x435, 0x43D]
              (ToLower asciiCyrillicLower [0x419, 0x426, 0x423, 0x41A, 0x415, 0x41D])"
    by code_simp
  have s3: "\<not> sublist (runes ''qwerty'') (ToLower asciiCyrillicLower (runes '' fine ''))"
    "\<not> sublist [0x439, 0x446, 0x443, 0x43A, 0x435, 0x43D]
         (ToLower asciiCyrillicLower (runes '' fine ''))"
    "\<not> sublist (runes ''zxvbnm'') (ToLower asciiCyrillicLower (runes '' fine ''))"
    by code_simp+
  show ?thesis
    using censorHandler_approves_iff_no_forbidden_word [OF h, of "\<lparr>censor_Text = runes ''my QwErTy''\<rparr>"]
      censorHandler_approves_iff_no_forbidden_word [OF h, of "\<lparr>censor_Text = [0x419, 0x426, 0x423, 0x41A, 0x415, 0x41D]\<rparr>"]
      censorHandler_approves_iff_no_forbidden_word [OF h, of "\<lparr>censor_Text = runes '' fine ''\<rparr>"]
      l t1 t2 t3 s1 s2 s3
    by simp
qed

end
